theory Spec2Isabelle
  imports Main "HOL-Library.Sublist"
begin

section \<open>Data model\<close>

text \<open>
  The service in \<^verbatim>\<open>app/counter_service.py\<close> works on rows of one table. A timestamp is
  a Python \<^verbatim>\<open>datetime\<close>; only its linear order matters here, so it is an integer (the
  number of microseconds since some epoch). Python integers are unbounded: \<open>int\<close>.
\<close>

type_synonym timestamp = int

text \<open>
  Modelled from the spec: the class \<^verbatim>\<open>Counter\<close> of \<^verbatim>\<open>app.models\<close> (section 3 of the
  specification: id, name, value, created_at, updated_at). The field \<^verbatim>\<open>id\<close> is \<open>cid\<close>
  and \<^verbatim>\<open>value\<close> is \<open>val\<close>, since \<open>id\<close> and \<open>value\<close> are taken in Isabelle.
\<close>

record counter =
  cid :: int
  name :: string
  val :: int
  created_at :: timestamp
  updated_at :: timestamp

text \<open>
  Modelled from the spec: \<^verbatim>\<open>CounterCreate\<close> and \<^verbatim>\<open>CounterUpdate\<close> of \<^verbatim>\<open>app.models\<close>, with
  the fields the service reads (\<^verbatim>\<open>counter_data.name\<close>, \<^verbatim>\<open>counter_data.value\<close>). The value
  of a \<^verbatim>\<open>CounterUpdate\<close> is optional: \<open>None\<close> is the unset sentinel.
\<close>

record counter_create =
  cc_name :: string
  cc_value :: int

record counter_update =
  cu_value :: "int option"

section \<open>The persistence store\<close>

text \<open>
  Modelled from the spec: the table behind \<^verbatim>\<open>app.database.get_session\<close> (section 4.1).
  The rows are kept in insertion order; \<open>next_id\<close> is the identifier the store gives
  to the next inserted row.
\<close>

record store =
  rows :: "counter list"
  next_id :: int

definition empty_store :: store where
  "empty_store = \<lparr>rows = [], next_id = 1\<rparr>"

text \<open>Modelled from the spec: \<^verbatim>\<open>getById\<close>, that is \<^verbatim>\<open>session.get(Counter, counter_id)\<close>.\<close>

definition get_by_id :: "store \<Rightarrow> int \<Rightarrow> counter option" where
  "get_by_id s i = find (\<lambda>r. cid r = i) (rows s)"

text \<open>
  Modelled from the spec: \<^verbatim>\<open>findByName\<close>, the first matching row or absence, that is
  \<^verbatim>\<open>session.exec(select(Counter).where(Counter.name == n)).first()\<close>.
\<close>

definition find_by_name :: "store \<Rightarrow> string \<Rightarrow> counter option" where
  "find_by_name s n = find (\<lambda>r. name r = n) (rows s)"

text \<open>
  Modelled from the spec: \<^verbatim>\<open>insert\<close>, which persists a new row and assigns its id,
  created_at and updated_at (\<^verbatim>\<open>Counter(name=..., value=...)\<close>, then add, commit and
  refresh). The two timestamps are the clock readings taken when the row is built, given
  as parameters \<open>tc\<close> and \<open>tu\<close>: nothing is assumed of them.
\<close>

definition insert_row :: "timestamp \<Rightarrow> timestamp \<Rightarrow> string \<Rightarrow> int \<Rightarrow> store \<Rightarrow> counter \<times> store" where
  "insert_row tc tu n v s =
     (let c = \<lparr>cid = next_id s, name = n, val = v, created_at = tc, updated_at = tu\<rparr>
      in (c, s\<lparr>rows := rows s @ [c], next_id := next_id s + 1\<rparr>))"

text \<open>
  Modelled from the spec: \<^verbatim>\<open>save\<close>, which persists the in-memory changes of an existing
  row (add and commit of an object loaded in the same session): the row with the id of
  \<open>c\<close> becomes \<open>c\<close>.
\<close>

definition save :: "counter \<Rightarrow> store \<Rightarrow> store" where
  "save c s = s\<lparr>rows := map (\<lambda>r. if cid r = cid c then c else r) (rows s)\<rparr>"

text \<open>
  The store's primary key: identifiers are pairwise distinct and below the next
  identifier to assign.
\<close>

definition wf_store :: "store \<Rightarrow> bool" where
  "wf_store s \<longleftrightarrow> distinct (map cid (rows s)) \<and> list_all (\<lambda>r. cid r < next_id s) (rows s)"

section \<open>The counter service\<close>

text \<open>
  Each operation of \<^verbatim>\<open>CounterService\<close> takes the store and returns its result with the
  store after the call. \<^verbatim>\<open>datetime.utcnow()\<close> is the reading \<open>now\<close> of the wall clock,
  a parameter of the operations that call it; it is read on the mutation path only.
  \<^verbatim>\<open>session.refresh(counter)\<close> reloads the row just committed, which is the record
  saved (lemma \<open>get_by_id_save\<close>).
\<close>

definition get_or_create_default_counter :: "timestamp \<Rightarrow> timestamp \<Rightarrow> store \<Rightarrow> counter \<times> store" where
  "get_or_create_default_counter tc tu s =
     (case find_by_name s ''default'' of
        None \<Rightarrow> insert_row tc tu ''default'' 0 s
      | Some counter \<Rightarrow> (counter, s))"

definition get_counter :: "int \<Rightarrow> store \<Rightarrow> counter option \<times> store" where
  "get_counter counter_id s = (get_by_id s counter_id, s)"

definition create_counter :: "timestamp \<Rightarrow> timestamp \<Rightarrow> counter_create \<Rightarrow> store \<Rightarrow> counter \<times> store" where
  "create_counter tc tu counter_data s =
     insert_row tc tu (cc_name counter_data) (cc_value counter_data) s"

definition increment_counter :: "timestamp \<Rightarrow> int \<Rightarrow> store \<Rightarrow> counter option \<times> store" where
  "increment_counter now counter_id s =
     (case get_by_id s counter_id of
        None \<Rightarrow> (None, s)
      | Some counter \<Rightarrow>
          (let c' = counter\<lparr>val := val counter + 1, updated_at := now\<rparr>
           in (Some c', save c' s)))"

definition decrement_counter :: "timestamp \<Rightarrow> int \<Rightarrow> store \<Rightarrow> counter option \<times> store" where
  "decrement_counter now counter_id s =
     (case get_by_id s counter_id of
        None \<Rightarrow> (None, s)
      | Some counter \<Rightarrow>
          (let c' = counter\<lparr>val := val counter - 1, updated_at := now\<rparr>
           in (Some c', save c' s)))"

definition update_counter :: "timestamp \<Rightarrow> int \<Rightarrow> counter_update \<Rightarrow> store \<Rightarrow> counter option \<times> store" where
  "update_counter now counter_id counter_data s =
     (case get_by_id s counter_id of
        None \<Rightarrow> (None, s)
      | Some counter \<Rightarrow>
          (case cu_value counter_data of
             Some v \<Rightarrow>
               (let c' = counter\<lparr>val := v, updated_at := now\<rparr>
                in (Some c', save c' s))
           | None \<Rightarrow> (Some counter, s)))"

definition reset_counter :: "timestamp \<Rightarrow> int \<Rightarrow> store \<Rightarrow> counter option \<times> store" where
  "reset_counter now counter_id s = update_counter now counter_id \<lparr>cu_value = Some 0\<rparr> s"

section \<open>Sequences of service calls\<close>

text \<open>
  A call of the service together with the clock readings it is given: two for the calls
  that may build a new row (created_at, then updated_at), one for the calls that may
  stamp updated_at, none for the read.
\<close>

datatype call =
    GetOrCreateDefault timestamp timestamp
  | Create timestamp timestamp counter_create
  | Get int
  | Increment timestamp int
  | Decrement timestamp int
  | Update timestamp int counter_update
  | Reset timestamp int

fun exec :: "call \<Rightarrow> store \<Rightarrow> store" where
  "exec (GetOrCreateDefault tc tu) s = snd (get_or_create_default_counter tc tu s)"
| "exec (Create tc tu d) s = snd (create_counter tc tu d s)"
| "exec (Get i) s = snd (get_counter i s)"
| "exec (Increment now i) s = snd (increment_counter now i s)"
| "exec (Decrement now i) s = snd (decrement_counter now i s)"
| "exec (Update now i d) s = snd (update_counter now i d s)"
| "exec (Reset now i) s = snd (reset_counter now i s)"

fun run :: "call list \<Rightarrow> store \<Rightarrow> store" where
  "run [] s = s"
| "run (c # cs) s = run cs (exec c s)"

fun readings :: "call \<Rightarrow> timestamp list" where
  "readings (GetOrCreateDefault tc tu) = [tc, tu]"
| "readings (Create tc tu d) = [tc, tu]"
| "readings (Get i) = []"
| "readings (Increment now i) = [now]"
| "readings (Decrement now i) = [now]"
| "readings (Update now i d) = [now]"
| "readings (Reset now i) = [now]"

definition clock :: "call list \<Rightarrow> timestamp list" where
  "clock cs = concat (map readings cs)"

text \<open>Every row has \<open>created_at \<le> updated_at\<close>.\<close>

definition stamps_ok :: "store \<Rightarrow> bool" where
  "stamps_ok s \<longleftrightarrow> list_all (\<lambda>r. created_at r \<le> updated_at r) (rows s)"

text \<open>No row of the store was created after the clock reading \<open>t\<close>.\<close>

definition created_by :: "timestamp \<Rightarrow> store \<Rightarrow> bool" where
  "created_by t s \<longleftrightarrow> list_all (\<lambda>r. created_at r \<le> t) (rows s)"

text \<open>The number of rows with a given name.\<close>

definition count_named :: "string \<Rightarrow> store \<Rightarrow> nat" where
  "count_named n s = length (filter (\<lambda>r. name r = n) (rows s))"

text \<open>A store with two counters, the second of them negative.\<close>

definition demo_store :: store where
  "demo_store =
     \<lparr>rows = [\<lparr>cid = 1, name = ''a'', val = 5, created_at = 10, updated_at = 20\<rparr>,
              \<lparr>cid = 2, name = ''b'', val = - 3, created_at = 30, updated_at = 30\<rparr>,
              \<lparr>cid = 3, name = ''z'', val = 0, created_at = 40, updated_at = 45\<rparr>],
      next_id = 4\<rparr>"

text \<open>
  The store \<open>s'\<close> has the rows of \<open>s\<close> in the same places, each row whose id is not
  \<open>i\<close> identical, and the same next identifier.
\<close>

definition unchanged_except :: "int \<Rightarrow> store \<Rightarrow> store \<Rightarrow> bool" where
  "unchanged_except i s s' \<longleftrightarrow>
     list_all2 (\<lambda>r r'. cid r \<noteq> i \<longrightarrow> r' = r) (rows s) (rows s') \<and> next_id s' = next_id s"

text \<open>The identifiers of the rows, and each identifier with its creation stamp, in row order.\<close>

definition ids :: "store \<Rightarrow> int list" where
  "ids s = map cid (rows s)"

definition id_stamps :: "store \<Rightarrow> (int \<times> timestamp) list" where
  "id_stamps s = map (\<lambda>r. (cid r, created_at r)) (rows s)"

section \<open>The store operations\<close>

lemma get_by_id_cid: "get_by_id s i = Some c \<Longrightarrow> cid c = i"
  unfolding get_by_id_def by (induction "rows s" arbitrary: s) (auto simp: find_Some_iff)

lemma get_by_id_mem: "get_by_id s i = Some c \<Longrightarrow> c \<in> set (rows s)"
  unfolding get_by_id_def by (auto simp: find_Some_iff)

lemma find_map_replace:
  "find (\<lambda>r. cid r = cid c) xs = Some d \<Longrightarrow>
   find (\<lambda>r. cid r = cid c) (map (\<lambda>r. if cid r = cid c then c else r) xs) = Some c"
  by (induction xs) (auto split: if_splits)

lemma find_map_other:
  "j \<noteq> cid c \<Longrightarrow>
   find (\<lambda>r. cid r = j) (map (\<lambda>r. if cid r = cid c then c else r) xs) = find (\<lambda>r. cid r = j) xs"
  by (induction xs) auto

lemma get_by_id_save:
  "get_by_id s i = Some d \<Longrightarrow> cid c = i \<Longrightarrow> get_by_id (save c s) i = Some c"
  unfolding get_by_id_def save_def using find_map_replace [of c "rows s" d] by auto

lemma get_by_id_save_other:
  "j \<noteq> cid c \<Longrightarrow> get_by_id (save c s) j = get_by_id s j"
  unfolding get_by_id_def save_def by (simp add: find_map_other)

lemma map_cid_save: "map cid (rows (save c s)) = map cid (rows s)"
  unfolding save_def by (induction "rows s") auto

lemma next_id_save: "next_id (save c s) = next_id s"
  unfolding save_def by simp

lemma demo_store_lookups:
  "get_by_id demo_store 1 = Some \<lparr>cid = 1, name = ''a'', val = 5, created_at = 10, updated_at = 20\<rparr>"
  "get_by_id demo_store 2 = Some \<lparr>cid = 2, name = ''b'', val = - 3, created_at = 30, updated_at = 30\<rparr>"
  "get_by_id demo_store 3 = Some \<lparr>cid = 3, name = ''z'', val = 0, created_at = 40, updated_at = 45\<rparr>"
  "get_by_id demo_store 99999 = None"
  unfolding get_by_id_def demo_store_def by simp_all

section \<open>Reads and the not-found outcome\<close>

text \<open>
  C10: \<^verbatim>\<open>get_counter\<close> is a pure read. For every id, present or absent, and every store,
  the store after the call is the store before it, and the result is the stored row.
\<close>

theorem get_counter_pure_read:
  "snd (get_counter i s) = s \<and> fst (get_counter i s) = get_by_id s i"
  unfolding get_counter_def by simp

text \<open>
  C1: for an id that is not in the store, get, increment, decrement, update (with any
  data) and reset each return \<open>None\<close> and leave the store as it was.
\<close>

theorem absent_id_returns_none:
  assumes "get_by_id s i = None"
  shows "get_counter i s = (None, s)
       \<and> increment_counter now i s = (None, s)
       \<and> decrement_counter now i s = (None, s)
       \<and> update_counter now i d s = (None, s)
       \<and> reset_counter now i s = (None, s)"
  using assms
  unfolding get_counter_def increment_counter_def decrement_counter_def
    update_counter_def reset_counter_def
  by simp

theorem absent_id_returns_none_witness:
  "get_by_id demo_store 99999 = None
   \<and> get_counter 99999 demo_store = (None, demo_store)
   \<and> increment_counter 50 99999 demo_store = (None, demo_store)
   \<and> decrement_counter 50 99999 demo_store = (None, demo_store)
   \<and> update_counter 50 99999 \<lparr>cu_value = Some 10\<rparr> demo_store = (None, demo_store)
   \<and> reset_counter 50 99999 demo_store = (None, demo_store)"
proof -
  have h: "get_by_id demo_store 99999 = None"
    by (rule demo_store_lookups)
  show ?thesis
    using h absent_id_returns_none [OF h, of 50 "\<lparr>cu_value = Some 10\<rparr>"] by simp
qed


section \<open>Updating and resetting a counter\<close>

lemma update_counter_some:
  "get_by_id s i = Some c \<Longrightarrow>
   update_counter now i \<lparr>cu_value = Some x\<rparr> s =
     (Some (c\<lparr>val := x, updated_at := now\<rparr>), save (c\<lparr>val := x, updated_at := now\<rparr>) s)"
  unfolding update_counter_def by (simp add: Let_def)

lemma update_counter_none:
  "get_by_id s i = Some c \<Longrightarrow> update_counter now i \<lparr>cu_value = None\<rparr> s = (Some c, s)"
  unfolding update_counter_def by simp

lemma get_by_id_save_upd:
  assumes "get_by_id s i = Some c"
  shows "get_by_id (save (c\<lparr>val := x, updated_at := t\<rparr>) s) i = Some (c\<lparr>val := x, updated_at := t\<rparr>)"
proof -
  have "cid (c\<lparr>val := x, updated_at := t\<rparr>) = i"
    using get_by_id_cid [OF assms] by simp
  then show ?thesis
    using get_by_id_save [OF assms] by blast
qed

text \<open>
  C3 as stated, where it fails: the counter 1 of \<open>demo_store\<close> carries
  \<open>updated_at = 20\<close>; an update to the value 7 at the clock reading 20 (the clock has not
  advanced since the last stamp) stores the value 7 and the stamp 20, which is not
  strictly later than the stamp before the call.
\<close>

theorem update_counter_same_reading_not_later:
  "get_by_id demo_store 1
     = Some \<lparr>cid = 1, name = ''a'', val = 5, created_at = 10, updated_at = 20\<rparr>
   \<and> fst (update_counter 20 1 \<lparr>cu_value = Some 7\<rparr> demo_store)
     = Some \<lparr>cid = 1, name = ''a'', val = 7, created_at = 10, updated_at = 20\<rparr>
   \<and> \<not> updated_at \<lparr>cid = 1, name = ''a'', val = 5, created_at = 10, updated_at = 20\<rparr>
       < updated_at \<lparr>cid = 1, name = ''a'', val = 7, created_at = 10, updated_at = 20\<rparr>"
  using update_counter_some [OF demo_store_lookups(1), of 20 7]
  by (simp add: demo_store_lookups)

text \<open>
  C3, amended: for a counter \<open>c\<close> whose id is in the store, an update with the unset
  sentinel returns \<open>c\<close> and the same store; an update with a value \<open>x\<close> returns and
  stores the record with value \<open>x\<close> and updated_at set to the clock reading \<open>now\<close> of
  the call (id, name and created_at kept), which is strictly later than the updated_at
  before the call exactly when the reading is.
\<close>

theorem update_counter_present:
  assumes "get_by_id s i = Some c"
  shows "update_counter now i \<lparr>cu_value = None\<rparr> s = (Some c, s)
       \<and> (\<exists>c'. fst (update_counter now i \<lparr>cu_value = Some x\<rparr> s) = Some c'
              \<and> get_by_id (snd (update_counter now i \<lparr>cu_value = Some x\<rparr> s)) i = Some c'
              \<and> val c' = x \<and> updated_at c' = now
              \<and> cid c' = cid c \<and> name c' = name c \<and> created_at c' = created_at c
              \<and> (updated_at c < updated_at c' \<longleftrightarrow> updated_at c < now))"
  using assms update_counter_none [OF assms, of now] update_counter_some [OF assms, of now x]
    get_by_id_save_upd [OF assms, where x = x and t = now]
  by simp

theorem update_counter_present_witness:
  "get_by_id demo_store 2
     = Some \<lparr>cid = 2, name = ''b'', val = - 3, created_at = 30, updated_at = 30\<rparr>
   \<and> update_counter 50 2 \<lparr>cu_value = None\<rparr> demo_store
     = (Some \<lparr>cid = 2, name = ''b'', val = - 3, created_at = 30, updated_at = 30\<rparr>, demo_store)
   \<and> (\<exists>c'. fst (update_counter 50 2 \<lparr>cu_value = Some 25\<rparr> demo_store) = Some c'
          \<and> get_by_id (snd (update_counter 50 2 \<lparr>cu_value = Some 25\<rparr> demo_store)) 2 = Some c'
          \<and> val c' = 25 \<and> updated_at c' = 50 \<and> 30 < updated_at c')"
  using update_counter_present [OF demo_store_lookups(2), of 50 25] demo_store_lookups(2)
  by auto

text \<open>
  C4: for every id and every store, \<^verbatim>\<open>reset_counter\<close> returns the result and the store
  that \<^verbatim>\<open>update_counter\<close> with the value 0 returns; for a counter in the store, the
  value returned and the value stored are 0, whatever the value before.
\<close>

theorem reset_counter_is_update_zero:
  "reset_counter now i s = update_counter now i \<lparr>cu_value = Some 0\<rparr> s
   \<and> (\<forall>c. get_by_id s i = Some c \<longrightarrow>
          map_option val (fst (reset_counter now i s)) = Some 0
        \<and> map_option val (get_by_id (snd (reset_counter now i s)) i) = Some 0)"
proof -
  have "reset_counter now i s = update_counter now i \<lparr>cu_value = Some 0\<rparr> s"
    unfolding reset_counter_def ..
  moreover have "map_option val (fst (reset_counter now i s)) = Some 0
        \<and> map_option val (get_by_id (snd (reset_counter now i s)) i) = Some 0"
    if "get_by_id s i = Some c" for c
    unfolding reset_counter_def
    using update_counter_some [OF that, of now 0] get_by_id_save_upd [OF that, where x = 0 and t = now]
    by simp
  ultimately show ?thesis by blast
qed

theorem reset_counter_is_update_zero_witness:
  "get_by_id demo_store 2
     = Some \<lparr>cid = 2, name = ''b'', val = - 3, created_at = 30, updated_at = 30\<rparr>
   \<and> reset_counter 50 2 demo_store = update_counter 50 2 \<lparr>cu_value = Some 0\<rparr> demo_store
   \<and> map_option val (fst (reset_counter 50 2 demo_store)) = Some 0
   \<and> map_option val (get_by_id (snd (reset_counter 50 2 demo_store)) 2) = Some 0"
  using reset_counter_is_update_zero [of 50 2 demo_store] demo_store_lookups(2)
  by blast

text \<open>
  C9: resetting a counter of the store whose value is already 0 takes the mutation path:
  the record returned and stored has value 0 and updated_at set to the clock reading of
  the call, while the same call with the unset sentinel leaves the store as it is.
\<close>

theorem reset_counter_at_zero_stamps:
  assumes "get_by_id s i = Some c" and "val c = 0"
  shows "reset_counter now i s = (Some (c\<lparr>updated_at := now\<rparr>), save (c\<lparr>updated_at := now\<rparr>) s)
       \<and> get_by_id (snd (reset_counter now i s)) i = Some (c\<lparr>updated_at := now\<rparr>)
       \<and> val (c\<lparr>updated_at := now\<rparr>) = 0
       \<and> updated_at (c\<lparr>updated_at := now\<rparr>) = now
       \<and> snd (update_counter now i \<lparr>cu_value = None\<rparr> s) = s"
proof -
  have eq: "c\<lparr>val := 0, updated_at := now\<rparr> = c\<lparr>updated_at := now\<rparr>"
    using assms(2) by simp
  show ?thesis
    unfolding reset_counter_def
    using update_counter_some [OF assms(1), of now 0] get_by_id_save_upd [OF assms(1), where x = 0 and t = now]
      update_counter_none [OF assms(1), of now] assms(2)
    by (simp add: eq)
qed

theorem reset_counter_at_zero_stamps_witness:
  "get_by_id demo_store 3
     = Some \<lparr>cid = 3, name = ''z'', val = 0, created_at = 40, updated_at = 45\<rparr>
   \<and> fst (reset_counter 50 3 demo_store)
     = Some \<lparr>cid = 3, name = ''z'', val = 0, created_at = 40, updated_at = 50\<rparr>
   \<and> get_by_id (snd (reset_counter 50 3 demo_store)) 3
     = Some \<lparr>cid = 3, name = ''z'', val = 0, created_at = 40, updated_at = 50\<rparr>
   \<and> snd (reset_counter 50 3 demo_store) \<noteq> demo_store"
proof -
  have v: "val \<lparr>cid = 3, name = ''z'', val = 0, created_at = 40, updated_at = 45\<rparr> = 0"
    by simp
  note r = reset_counter_at_zero_stamps [OF demo_store_lookups(3) v, of 50]
  have fst_r: "fst (reset_counter 50 3 demo_store)
      = Some \<lparr>cid = 3, name = ''z'', val = 0, created_at = 40, updated_at = 50\<rparr>"
    using r by simp
  have got: "get_by_id (snd (reset_counter 50 3 demo_store)) 3
      = Some \<lparr>cid = 3, name = ''z'', val = 0, created_at = 40, updated_at = 50\<rparr>"
    using r [THEN conjunct2, THEN conjunct1] by simp
  have "snd (reset_counter 50 3 demo_store) \<noteq> demo_store"
  proof
    assume "snd (reset_counter 50 3 demo_store) = demo_store"
    with got demo_store_lookups(3) show False by simp
  qed
  with fst_r got demo_store_lookups(3) show ?thesis by simp
qed


section \<open>What a call does to the store\<close>

lemma increment_counter_store:
  "snd (increment_counter now i s) =
     (case get_by_id s i of None \<Rightarrow> s
      | Some c \<Rightarrow> save (c\<lparr>val := val c + 1, updated_at := now\<rparr>) s)"
  unfolding increment_counter_def by (simp add: Let_def split: option.splits)

lemma decrement_counter_store:
  "snd (decrement_counter now i s) =
     (case get_by_id s i of None \<Rightarrow> s
      | Some c \<Rightarrow> save (c\<lparr>val := val c - 1, updated_at := now\<rparr>) s)"
  unfolding decrement_counter_def by (simp add: Let_def split: option.splits)

lemma update_counter_store:
  "snd (update_counter now i d s) =
     (case get_by_id s i of None \<Rightarrow> s
      | Some c \<Rightarrow> (case cu_value d of None \<Rightarrow> s
                   | Some v \<Rightarrow> save (c\<lparr>val := v, updated_at := now\<rparr>) s))"
  unfolding update_counter_def by (simp add: Let_def split: option.splits)

lemma reset_counter_store:
  "snd (reset_counter now i s) =
     (case get_by_id s i of None \<Rightarrow> s
      | Some c \<Rightarrow> save (c\<lparr>val := 0, updated_at := now\<rparr>) s)"
  unfolding reset_counter_def by (simp add: update_counter_store split: option.splits)

lemma get_or_create_default_counter_store:
  "snd (get_or_create_default_counter tc tu s) =
     (case find_by_name s ''default'' of None \<Rightarrow> snd (insert_row tc tu ''default'' 0 s)
      | Some c \<Rightarrow> s)"
  unfolding get_or_create_default_counter_def by (simp split: option.splits)

lemma exec_cases:
  obtains (same) "exec a s = s"
  | (saved) c v now where "get_by_id s (cid c) = Some c" and "now \<in> set (readings a)"
      and "exec a s = save (c\<lparr>val := v, updated_at := now\<rparr>) s"
  | (inserted) tc tu n v where "readings a = [tc, tu]"
      and "exec a s = snd (insert_row tc tu n v s)"
proof (cases a)
  case (GetOrCreateDefault tc tu)
  then show ?thesis
    using same inserted [of tc tu "''default''" 0]
    by (cases "find_by_name s ''default''") (simp_all add: get_or_create_default_counter_store)
next
  case (Create tc tu d)
  then show ?thesis
    using inserted [of tc tu "cc_name d" "cc_value d"] by (simp add: create_counter_def)
next
  case (Get i)
  then show ?thesis using same by (simp add: get_counter_def)
next
  case (Increment now i)
  show ?thesis
  proof (cases "get_by_id s i")
    case None
    with Increment show ?thesis using same by (simp add: increment_counter_store)
  next
    case (Some c)
    then have "get_by_id s (cid c) = Some c" using get_by_id_cid by blast
    with Increment Some show ?thesis
      using saved [of c now "val c + 1"] by (simp add: increment_counter_store)
  qed
next
  case (Decrement now i)
  show ?thesis
  proof (cases "get_by_id s i")
    case None
    with Decrement show ?thesis using same by (simp add: decrement_counter_store)
  next
    case (Some c)
    then have "get_by_id s (cid c) = Some c" using get_by_id_cid by blast
    with Decrement Some show ?thesis
      using saved [of c now "val c - 1"] by (simp add: decrement_counter_store)
  qed
next
  case (Update now i d)
  show ?thesis
  proof (cases "get_by_id s i")
    case None
    with Update show ?thesis using same by (simp add: update_counter_store)
  next
    case (Some c)
    then have g: "get_by_id s (cid c) = Some c" using get_by_id_cid by blast
    show ?thesis
    proof (cases "cu_value d")
      case None
      with Update Some show ?thesis using same by (simp add: update_counter_store)
    next
      case (Some v)
      with Update \<open>get_by_id s i = Some c\<close> g show ?thesis
        using saved [of c now v] by (simp add: update_counter_store)
    qed
  qed
next
  case (Reset now i)
  show ?thesis
  proof (cases "get_by_id s i")
    case None
    with Reset show ?thesis using same by (simp add: reset_counter_store)
  next
    case (Some c)
    then have "get_by_id s (cid c) = Some c" using get_by_id_cid by blast
    with Reset Some show ?thesis
      using saved [of c now 0] by (simp add: reset_counter_store)
  qed
qed

lemma run_append: "run (xs @ ys) s = run ys (run xs s)"
  by (induction xs arbitrary: s) simp_all

section \<open>The frame of a mutation\<close>

lemma list_all2_replace:
  "list_all2 (\<lambda>r r'. cid r \<noteq> cid c \<longrightarrow> r' = r) xs (map (\<lambda>r. if cid r = cid c then c else r) xs)"
  by (induction xs) auto

lemma unchanged_except_save: "cid c = i \<Longrightarrow> unchanged_except i s (save c s)"
  unfolding unchanged_except_def save_def using list_all2_replace [of c "rows s"] by auto

lemma unchanged_except_refl: "unchanged_except i s s"
  unfolding unchanged_except_def by (simp add: list_all2_same)

lemma unchanged_except_touch:
  "unchanged_except i s (case get_by_id s i of None \<Rightarrow> s | Some c \<Rightarrow> save (c\<lparr>val := f c, updated_at := t\<rparr>) s)"
proof (cases "get_by_id s i")
  case None
  then show ?thesis by (simp add: unchanged_except_refl)
next
  case (Some c)
  then have "cid (c\<lparr>val := f c, updated_at := t\<rparr>) = i"
    using get_by_id_cid by fastforce
  with Some show ?thesis by (simp add: unchanged_except_save)
qed

lemma get_by_id_touch_other:
  "j \<noteq> i \<Longrightarrow>
   get_by_id (case get_by_id s i of None \<Rightarrow> s | Some c \<Rightarrow> save (c\<lparr>val := f c, updated_at := t\<rparr>) s) j
     = get_by_id s j"
proof (cases "get_by_id s i")
  case None
  then show ?thesis by simp
next
  case (Some c)
  assume "j \<noteq> i"
  moreover have "cid (c\<lparr>val := f c, updated_at := t\<rparr>) = i"
    using Some get_by_id_cid by fastforce
  ultimately show ?thesis
    using Some by (simp add: get_by_id_save_other)
qed

lemma update_counter_store_touch:
  "snd (update_counter now i d s) =
     (case cu_value d of None \<Rightarrow> s
      | Some v \<Rightarrow> (case get_by_id s i of None \<Rightarrow> s
                   | Some c \<Rightarrow> save (c\<lparr>val := v, updated_at := now\<rparr>) s))"
  by (simp add: update_counter_store split: option.splits)

text \<open>
  C8: increment, decrement, update and reset of the id \<open>i\<close> leave every row whose id is
  not \<open>i\<close> as it was (the whole record: name, value, created_at, updated_at), in its
  place, and looking up any other id gives the same record as before.
\<close>

theorem mutation_frame:
  "unchanged_except i s (snd (increment_counter now i s))
   \<and> unchanged_except i s (snd (decrement_counter now i s))
   \<and> unchanged_except i s (snd (update_counter now i d s))
   \<and> unchanged_except i s (snd (reset_counter now i s))
   \<and> (\<forall>j. j \<noteq> i \<longrightarrow>
          get_by_id (snd (increment_counter now i s)) j = get_by_id s j
        \<and> get_by_id (snd (decrement_counter now i s)) j = get_by_id s j
        \<and> get_by_id (snd (update_counter now i d s)) j = get_by_id s j
        \<and> get_by_id (snd (reset_counter now i s)) j = get_by_id s j)"
proof -
  have inc: "unchanged_except i s (snd (increment_counter now i s))"
    unfolding increment_counter_store by (rule unchanged_except_touch)
  have dec: "unchanged_except i s (snd (decrement_counter now i s))"
    unfolding decrement_counter_store by (rule unchanged_except_touch)
  have upd: "unchanged_except i s (snd (update_counter now i d' s))" for d'
    unfolding update_counter_store_touch
    using unchanged_except_touch [where i = i and s = s and f = "\<lambda>_. v" and t = now for v]
    by (cases "cu_value d'") (simp_all add: unchanged_except_refl)
  have res: "unchanged_except i s (snd (reset_counter now i s))"
    unfolding reset_counter_def by (rule upd)
  have inc': "get_by_id (snd (increment_counter now i s)) j = get_by_id s j" if "j \<noteq> i" for j
    unfolding increment_counter_store by (rule get_by_id_touch_other [OF that])
  have dec': "get_by_id (snd (decrement_counter now i s)) j = get_by_id s j" if "j \<noteq> i" for j
    unfolding decrement_counter_store by (rule get_by_id_touch_other [OF that])
  have upd': "get_by_id (snd (update_counter now i d' s)) j = get_by_id s j" if "j \<noteq> i" for j d'
    unfolding update_counter_store_touch
    using get_by_id_touch_other [OF that, where s = s and f = "\<lambda>_. v" and t = now for v]
    by (cases "cu_value d'") simp_all
  have res': "get_by_id (snd (reset_counter now i s)) j = get_by_id s j" if "j \<noteq> i" for j
    unfolding reset_counter_def by (rule upd' [OF that])
  show ?thesis
    using inc dec upd res inc' dec' upd' res' by blast
qed

theorem mutation_frame_witness:
  "(2::int) \<noteq> 1
   \<and> unchanged_except 1 demo_store (snd (increment_counter 50 1 demo_store))
   \<and> get_by_id (snd (increment_counter 50 1 demo_store)) 2 = get_by_id demo_store 2
   \<and> get_by_id (snd (decrement_counter 50 1 demo_store)) 2 = get_by_id demo_store 2
   \<and> get_by_id (snd (update_counter 50 1 \<lparr>cu_value = Some 9\<rparr> demo_store)) 2 = get_by_id demo_store 2
   \<and> get_by_id (snd (reset_counter 50 1 demo_store)) 2 = get_by_id demo_store 2
   \<and> get_by_id demo_store 2
       = Some \<lparr>cid = 2, name = ''b'', val = - 3, created_at = 30, updated_at = 30\<rparr>
   \<and> get_by_id (snd (increment_counter 50 1 demo_store)) 1
       = Some \<lparr>cid = 1, name = ''a'', val = 6, created_at = 10, updated_at = 50\<rparr>"
proof -
  have ne: "(2::int) \<noteq> 1" by simp
  have "get_by_id (snd (increment_counter 50 1 demo_store)) 1
       = Some \<lparr>cid = 1, name = ''a'', val = 6, created_at = 10, updated_at = 50\<rparr>"
    unfolding increment_counter_store
    using get_by_id_save_upd [OF demo_store_lookups(1), where x = 6 and t = 50]
    by (simp add: demo_store_lookups(1))
  then show ?thesis
    using ne mutation_frame [of 1 demo_store 50 "\<lparr>cu_value = Some 9\<rparr>"] demo_store_lookups(2)
    by blast
qed


section \<open>The default counter\<close>

lemma find_append_none: "find P xs = None \<Longrightarrow> find P (xs @ ys) = find P ys"
  by (induction xs) (auto split: if_splits)

lemma filter_find_none: "find P xs = None \<Longrightarrow> filter P xs = []"
  by (induction xs) (auto split: if_splits)

text \<open>
  C5: from a store with no row named "default", \<^verbatim>\<open>get_or_create_default_counter\<close>
  appends a row named "default" with value 0 and returns it; a second call right after
  returns the same record (same id, name "default") and the same store, in which exactly
  one row, hence at most one, is named "default".
\<close>

theorem default_counter_created_once:
  assumes "find_by_name s ''default'' = None"
    and "get_or_create_default_counter tc tu s = (c1, s1)"
    and "get_or_create_default_counter tc' tu' s1 = (c2, s2)"
  shows "name c1 = ''default'' \<and> val c1 = 0 \<and> rows s1 = rows s @ [c1]
       \<and> cid c2 = cid c1 \<and> name c2 = ''default'' \<and> c2 = c1
       \<and> s2 = s1
       \<and> count_named ''default'' s2 = 1 \<and> count_named ''default'' s2 \<le> 1"
proof -
  have ins: "insert_row tc tu ''default'' 0 s = (c1, s1)"
    using assms(1,2) unfolding get_or_create_default_counter_def by simp
  then have c1: "c1 = \<lparr>cid = next_id s, name = ''default'', val = 0, created_at = tc, updated_at = tu\<rparr>"
    and s1: "rows s1 = rows s @ [c1]"
    unfolding insert_row_def by (auto simp: Let_def)
  have nm: "name c1 = ''default''" and v: "val c1 = 0"
    using c1 by simp_all
  have found: "find_by_name s1 ''default'' = Some c1"
    using assms(1) nm unfolding find_by_name_def s1 by (simp add: find_append_none)
  then have second: "c2 = c1" "s2 = s1"
    using assms(3) unfolding get_or_create_default_counter_def by simp_all
  have "count_named ''default'' s1 = 1"
    using assms(1) nm unfolding count_named_def find_by_name_def s1
    by (simp add: filter_find_none)
  with nm v s1 second show ?thesis by simp
qed

theorem default_counter_created_once_witness:
  "find_by_name empty_store ''default'' = None
   \<and> get_or_create_default_counter 10 11 empty_store
       = (\<lparr>cid = 1, name = ''default'', val = 0, created_at = 10, updated_at = 11\<rparr>,
          \<lparr>rows = [\<lparr>cid = 1, name = ''default'', val = 0, created_at = 10, updated_at = 11\<rparr>],
           next_id = 2\<rparr>)
   \<and> fst (get_or_create_default_counter 20 21
        \<lparr>rows = [\<lparr>cid = 1, name = ''default'', val = 0, created_at = 10, updated_at = 11\<rparr>],
         next_id = 2\<rparr>)
       = \<lparr>cid = 1, name = ''default'', val = 0, created_at = 10, updated_at = 11\<rparr>
   \<and> snd (get_or_create_default_counter 20 21
        \<lparr>rows = [\<lparr>cid = 1, name = ''default'', val = 0, created_at = 10, updated_at = 11\<rparr>],
         next_id = 2\<rparr>)
       = \<lparr>rows = [\<lparr>cid = 1, name = ''default'', val = 0, created_at = 10, updated_at = 11\<rparr>],
          next_id = 2\<rparr>
   \<and> count_named ''default''
        (snd (get_or_create_default_counter 20 21
          \<lparr>rows = [\<lparr>cid = 1, name = ''default'', val = 0, created_at = 10, updated_at = 11\<rparr>],
           next_id = 2\<rparr>)) \<le> 1"
proof -
  let ?c = "\<lparr>cid = 1, name = ''default'', val = 0, created_at = 10, updated_at = 11\<rparr>"
  let ?s = "\<lparr>rows = [?c], next_id = 2\<rparr>"
  have h1: "find_by_name empty_store ''default'' = None"
    unfolding find_by_name_def empty_store_def by simp
  have h2: "get_or_create_default_counter 10 11 empty_store = (?c, ?s)"
    unfolding get_or_create_default_counter_def find_by_name_def insert_row_def empty_store_def
    by (simp add: Let_def)
  have h3: "get_or_create_default_counter 20 21 ?s
      = (fst (get_or_create_default_counter 20 21 ?s), snd (get_or_create_default_counter 20 21 ?s))"
    by simp
  note r = default_counter_created_once [OF h1 h2 h3]
  have a: "fst (get_or_create_default_counter 20 21 ?s) = ?c"
    using r by blast
  have b: "snd (get_or_create_default_counter 20 21 ?s) = ?s"
    using r by blast
  have c: "count_named ''default'' (snd (get_or_create_default_counter 20 21 ?s)) \<le> 1"
    using r by blast
  show ?thesis
    using h1 h2 a b c by blast
qed

section \<open>Counting up and down\<close>

lemma wf_store_fresh: "wf_store s \<Longrightarrow> find (\<lambda>r. cid r = next_id s) (rows s) = None"
  unfolding wf_store_def by (auto simp: find_None_iff list_all_iff)

lemma get_by_id_insert_row:
  assumes "wf_store s" and "insert_row tc tu n v s = (c, s1)"
  shows "get_by_id s1 (cid c) = Some c \<and> val c = v"
proof -
  have c: "c = \<lparr>cid = next_id s, name = n, val = v, created_at = tc, updated_at = tu\<rparr>"
    and s1: "rows s1 = rows s @ [c]"
    using assms(2) unfolding insert_row_def by (auto simp: Let_def)
  have "cid c = next_id s" and "val c = v" using c by simp_all
  then show ?thesis
    unfolding get_by_id_def s1 using wf_store_fresh [OF assms(1)]
    by (simp add: find_append_none)
qed

lemma run_increments:
  "get_by_id s i = Some c \<Longrightarrow>
   \<exists>c'. get_by_id (run (map (\<lambda>t. Increment t i) ts) s) i = Some c'
        \<and> val c' = val c + int (length ts)"
proof (induction ts arbitrary: s c)
  case Nil
  then show ?case by simp
next
  case (Cons t ts)
  let ?c = "c\<lparr>val := val c + 1, updated_at := t\<rparr>"
  have step: "exec (Increment t i) s = save ?c s"
    using Cons.prems by (simp add: increment_counter_store)
  have "get_by_id (save ?c s) i = Some ?c"
    using get_by_id_save_upd [OF Cons.prems] .
  from Cons.IH [OF this] show ?case
    using step by auto
qed

lemma run_decrements:
  "get_by_id s i = Some c \<Longrightarrow>
   \<exists>c'. get_by_id (run (map (\<lambda>t. Decrement t i) ts) s) i = Some c'
        \<and> val c' = val c - int (length ts)"
proof (induction ts arbitrary: s c)
  case Nil
  then show ?case by simp
next
  case (Cons t ts)
  let ?c = "c\<lparr>val := val c - 1, updated_at := t\<rparr>"
  have step: "exec (Decrement t i) s = save ?c s"
    using Cons.prems by (simp add: decrement_counter_store)
  have "get_by_id (save ?c s) i = Some ?c"
    using get_by_id_save_upd [OF Cons.prems] .
  from Cons.IH [OF this] show ?case
    using step by auto
qed

text \<open>
  C2: a counter created with the initial value \<open>v\<close> (in a store whose ids are unique),
  incremented \<open>n\<close> times and then decremented \<open>m\<close> times, at any clock readings, has
  the value \<open>v + n - m\<close> when read back; the value is an integer with no lower bound.
\<close>

theorem increments_then_decrements:
  assumes "wf_store s"
    and "create_counter tc tu d s = (c, s1)"
    and "cc_value d = v"
    and "length ts1 = n" and "length ts2 = m"
  shows "map_option val
           (fst (get_counter (cid c)
              (run (map (\<lambda>t. Increment t (cid c)) ts1 @ map (\<lambda>t. Decrement t (cid c)) ts2) s1)))
         = Some (v + int n - int m)"
proof -
  have start: "get_by_id s1 (cid c) = Some c" and v: "val c = v"
    using get_by_id_insert_row [OF assms(1)] assms(2,3) unfolding create_counter_def by auto
  obtain c' where up: "get_by_id (run (map (\<lambda>t. Increment t (cid c)) ts1) s1) (cid c) = Some c'"
    and v': "val c' = val c + int (length ts1)"
    using run_increments [OF start] by blast
  obtain c'' where down:
      "get_by_id (run (map (\<lambda>t. Decrement t (cid c)) ts2)
         (run (map (\<lambda>t. Increment t (cid c)) ts1) s1)) (cid c) = Some c''"
    and v'': "val c'' = val c' - int (length ts2)"
    using run_decrements [OF up] by blast
  show ?thesis
    using down v v' v'' assms(4,5) by (simp add: run_append get_counter_def)
qed

theorem increments_then_decrements_witness:
  "wf_store empty_store
   \<and> create_counter 10 10 \<lparr>cc_name = ''a'', cc_value = 1\<rparr> empty_store
       = (\<lparr>cid = 1, name = ''a'', val = 1, created_at = 10, updated_at = 10\<rparr>,
          \<lparr>rows = [\<lparr>cid = 1, name = ''a'', val = 1, created_at = 10, updated_at = 10\<rparr>], next_id = 2\<rparr>)
   \<and> map_option val
        (fst (get_counter 1
           (run [Increment 11 1, Increment 12 1, Decrement 13 1, Decrement 14 1, Decrement 15 1,
                 Decrement 16 1]
              \<lparr>rows = [\<lparr>cid = 1, name = ''a'', val = 1, created_at = 10, updated_at = 10\<rparr>],
               next_id = 2\<rparr>)))
       = Some (- 1)"
proof -
  let ?c = "\<lparr>cid = 1, name = ''a'', val = 1, created_at = 10, updated_at = 10\<rparr>"
  let ?s = "\<lparr>rows = [?c], next_id = 2\<rparr>"
  have h1: "wf_store empty_store"
    unfolding wf_store_def empty_store_def by simp
  have h2: "create_counter 10 10 \<lparr>cc_name = ''a'', cc_value = 1\<rparr> empty_store = (?c, ?s)"
    unfolding create_counter_def insert_row_def empty_store_def by (simp add: Let_def)
  have h3: "cc_value \<lparr>cc_name = ''a'', cc_value = 1\<rparr> = 1" by simp
  have h4: "length [11, 12 :: int] = 2" by simp
  have h5: "length [13, 14, 15, 16 :: int] = 4" by simp
  show ?thesis
    using h1 h2 increments_then_decrements [OF h1 h2 h3 h4 h5] by simp
qed


section \<open>Invariants of every sequence of calls\<close>

lemma wf_store_ids:
  "wf_store s \<longleftrightarrow> distinct (ids s) \<and> (\<forall>i\<in>set (ids s). i < next_id s)"
  unfolding wf_store_def ids_def by (auto simp: list_all_iff)

lemma ids_save: "ids (save c s) = ids s"
  unfolding ids_def by (rule map_cid_save)

lemma ids_insert_row: "ids (snd (insert_row tc tu n v s)) = ids s @ [next_id s]"
  unfolding ids_def insert_row_def by (simp add: Let_def)

lemma wf_store_save: "wf_store s \<Longrightarrow> wf_store (save c s)"
  unfolding wf_store_ids by (simp add: ids_save next_id_save)

lemma wf_store_insert_row: "wf_store s \<Longrightarrow> wf_store (snd (insert_row tc tu n v s))"
  unfolding wf_store_ids ids_insert_row by (fastforce simp: insert_row_def Let_def)

lemma wf_store_exec: "wf_store s \<Longrightarrow> wf_store (exec a s)"
  by (cases a s rule: exec_cases) (simp_all add: wf_store_save wf_store_insert_row)

lemma wf_store_run: "wf_store s \<Longrightarrow> wf_store (run cs s)"
  by (induction cs arbitrary: s) (simp_all add: wf_store_exec)

lemma ids_exec: "prefix (ids s) (ids (exec a s))"
  by (cases a s rule: exec_cases) (simp_all add: ids_save ids_insert_row)

lemma ids_run: "prefix (ids s) (ids (run cs s))"
proof (induction cs arbitrary: s)
  case Nil
  show ?case by simp
next
  case (Cons a cs)
  have "prefix (ids s) (ids (exec a s))" by (rule ids_exec)
  also have "prefix (ids (exec a s)) (ids (run cs (exec a s)))" by (rule Cons.IH)
  finally show ?case by simp
qed

lemma get_by_id_present: "get_by_id s i \<noteq> None \<longleftrightarrow> i \<in> set (ids s)"
  unfolding get_by_id_def ids_def by (auto simp: find_None_iff)

text \<open>
  C7: no call removes a row. The identifiers of the rows after any calls \<open>cs1\<close> are, in
  the same places, the first identifiers of the rows after any further calls \<open>cs2\<close>, so
  every id found at some point is found after every later call.
\<close>

theorem rows_never_removed:
  "prefix (ids (run cs1 s)) (ids (run (cs1 @ cs2) s))
   \<and> (\<forall>i. get_by_id (run cs1 s) i \<noteq> None \<longrightarrow> get_by_id (run (cs1 @ cs2) s) i \<noteq> None)"
proof -
  have p: "prefix (ids (run cs1 s)) (ids (run (cs1 @ cs2) s))"
    unfolding run_append by (rule ids_run)
  then have "set (ids (run cs1 s)) \<subseteq> set (ids (run (cs1 @ cs2) s))"
    by (rule set_mono_prefix)
  with p show ?thesis
    unfolding get_by_id_present by blast
qed

theorem rows_never_removed_witness:
  "get_by_id (run [Create 10 10 \<lparr>cc_name = ''a'', cc_value = 5\<rparr>] empty_store) 1 \<noteq> None
   \<and> get_by_id (run ([Create 10 10 \<lparr>cc_name = ''a'', cc_value = 5\<rparr>]
          @ [Increment 11 1, GetOrCreateDefault 12 12, Reset 13 1, Decrement 14 2]) empty_store) 1
       \<noteq> None
   \<and> prefix (ids (run [Create 10 10 \<lparr>cc_name = ''a'', cc_value = 5\<rparr>] empty_store))
        (ids (run ([Create 10 10 \<lparr>cc_name = ''a'', cc_value = 5\<rparr>]
          @ [Increment 11 1, GetOrCreateDefault 12 12, Reset 13 1, Decrement 14 2]) empty_store))
   \<and> ids (run [Create 10 10 \<lparr>cc_name = ''a'', cc_value = 5\<rparr>] empty_store) = [1]"
proof -
  let ?cs1 = "[Create 10 10 \<lparr>cc_name = ''a'', cc_value = 5\<rparr>]"
  let ?cs2 = "[Increment 11 1, GetOrCreateDefault 12 12, Reset 13 1, Decrement 14 2]"
  have s1: "run ?cs1 empty_store
      = \<lparr>rows = [\<lparr>cid = 1, name = ''a'', val = 5, created_at = 10, updated_at = 10\<rparr>],
         next_id = 2\<rparr>"
    by (simp add: create_counter_def insert_row_def empty_store_def Let_def)
  have h: "get_by_id (run ?cs1 empty_store) 1 \<noteq> None"
    unfolding s1 get_by_id_def by simp
  have i: "ids (run ?cs1 empty_store) = [1]"
    unfolding s1 ids_def by simp
  note r = rows_never_removed [of ?cs1 empty_store ?cs2]
  have a: "get_by_id (run (?cs1 @ ?cs2) empty_store) 1 \<noteq> None"
    using r h by blast
  have b: "prefix (ids (run ?cs1 empty_store)) (ids (run (?cs1 @ ?cs2) empty_store))"
    using r by blast
  show ?thesis
    using h a b i by blast
qed


section \<open>Creation and update stamps\<close>

lemma id_stamps_save:
  assumes "wf_store s" and "get_by_id s (cid c) = Some c"
  shows "id_stamps (save (c\<lparr>val := v, updated_at := t\<rparr>) s) = id_stamps s"
proof -
  have mem: "c \<in> set (rows s)"
    using assms(2) by (rule get_by_id_mem)
  have "inj_on cid (set (rows s))"
    using assms(1) unfolding wf_store_def by (simp add: distinct_map)
  then have same: "r = c" if "r \<in> set (rows s)" and "cid r = cid c" for r
    using that mem by (auto dest: inj_onD)
  show ?thesis
    unfolding id_stamps_def save_def using same by auto
qed

lemma id_stamps_insert_row:
  "id_stamps (snd (insert_row tc tu n v s)) = id_stamps s @ [(next_id s, tc)]"
  unfolding id_stamps_def insert_row_def by (simp add: Let_def)

lemma id_stamps_exec: "wf_store s \<Longrightarrow> prefix (id_stamps s) (id_stamps (exec a s))"
  by (cases a s rule: exec_cases) (simp_all add: id_stamps_save id_stamps_insert_row)

lemma id_stamps_run: "wf_store s \<Longrightarrow> prefix (id_stamps s) (id_stamps (run cs s))"
proof (induction cs arbitrary: s)
  case Nil
  show ?case by simp
next
  case (Cons a cs)
  have "prefix (id_stamps s) (id_stamps (exec a s))"
    using Cons.prems by (rule id_stamps_exec)
  also have "prefix (id_stamps (exec a s)) (id_stamps (run cs (exec a s)))"
    using Cons.prems by (intro Cons.IH wf_store_exec)
  finally show ?case by simp
qed

lemma stamps_ok_save:
  assumes "stamps_ok s" and "created_at c \<le> t"
  shows "stamps_ok (save (c\<lparr>val := v, updated_at := t\<rparr>) s)"
  using assms unfolding stamps_ok_def save_def by (auto simp: list_all_iff)

lemma created_by_save:
  assumes "created_by t' s" and "get_by_id s (cid c) = Some c"
  shows "created_by t' (save (c\<lparr>val := v, updated_at := t\<rparr>) s)"
proof -
  have "created_at c \<le> t'"
    using assms(1) get_by_id_mem [OF assms(2)] unfolding created_by_def by (simp add: list_all_iff)
  then show ?thesis
    using assms(1) unfolding created_by_def save_def by (auto simp: list_all_iff)
qed

lemma stamps_ok_insert_row:
  "stamps_ok s \<Longrightarrow> tc \<le> tu \<Longrightarrow> stamps_ok (snd (insert_row tc tu n v s))"
  unfolding stamps_ok_def insert_row_def by (simp add: Let_def)

lemma created_by_insert_row:
  "created_by t s \<Longrightarrow> tc \<le> t \<Longrightarrow> created_by t (snd (insert_row tc tu n v s))"
  unfolding created_by_def insert_row_def by (simp add: Let_def)

lemma stamps_exec:
  assumes "stamps_ok s" and "sorted (readings a @ ts)"
    and "\<forall>t\<in>set (readings a @ ts). created_by t s"
  shows "stamps_ok (exec a s) \<and> (\<forall>t\<in>set ts. created_by t (exec a s))"
proof (cases a s rule: exec_cases)
  case same
  then show ?thesis using assms by simp
next
  case (saved c v now)
  have "created_by now s"
    using assms(3) saved(2) by simp
  then have "created_at c \<le> now"
    using get_by_id_mem [OF saved(1)] unfolding created_by_def by (simp add: list_all_iff)
  then have "stamps_ok (exec a s)"
    unfolding saved(3) using assms(1) by (intro stamps_ok_save)
  moreover have "created_by t (exec a s)" if "t \<in> set ts" for t
    unfolding saved(3) using assms(3) that saved(1) by (intro created_by_save) simp_all
  ultimately show ?thesis by blast
next
  case (inserted tc tu n v)
  have "tc \<le> tu" and later: "\<forall>t\<in>set ts. tc \<le> t"
    using assms(2) unfolding inserted(1) by (auto simp: sorted_append)
  then have "stamps_ok (exec a s)"
    unfolding inserted(2) using assms(1) by (intro stamps_ok_insert_row)
  moreover have "created_by t (exec a s)" if "t \<in> set ts" for t
    unfolding inserted(2) using assms(3) that later by (intro created_by_insert_row) simp_all
  ultimately show ?thesis by blast
qed

lemma stamps_run:
  assumes "stamps_ok s" and "sorted (clock cs)" and "\<forall>t\<in>set (clock cs). created_by t s"
  shows "stamps_ok (run cs s)"
  using assms
proof (induction cs arbitrary: s)
  case Nil
  then show ?case by simp
next
  case (Cons a cs)
  have cl: "clock (a # cs) = readings a @ clock cs"
    unfolding clock_def by simp
  have step: "stamps_ok (exec a s) \<and> (\<forall>t\<in>set (clock cs). created_by t (exec a s))"
    using Cons.prems unfolding cl by (intro stamps_exec)
  have "sorted (clock cs)"
    using Cons.prems(2) unfolding cl by (simp add: sorted_append)
  with step show ?case
    using Cons.IH [of "exec a s"] by simp
qed

text \<open>
  C6 as stated, where it fails: a counter created at the clock reading 10 and
  incremented at the reading 5 (the wall clock was set back in between) has
  \<open>updated_at = 5\<close>, below its \<open>created_at = 10\<close>.
\<close>

theorem clock_set_back_breaks_stamps:
  "stamps_ok (run [Create 10 10 \<lparr>cc_name = ''a'', cc_value = 0\<rparr>] empty_store)
   \<and> \<not> stamps_ok (run [Create 10 10 \<lparr>cc_name = ''a'', cc_value = 0\<rparr>, Increment 5 1] empty_store)
   \<and> get_by_id (run [Create 10 10 \<lparr>cc_name = ''a'', cc_value = 0\<rparr>, Increment 5 1] empty_store) 1
       = Some \<lparr>cid = 1, name = ''a'', val = 1, created_at = 10, updated_at = 5\<rparr>"
  by (simp add: stamps_ok_def create_counter_def insert_row_def empty_store_def
      increment_counter_def get_by_id_def save_def Let_def)

text \<open>
  C6, amended: in a store whose ids are unique, no sequence of service calls changes the
  id or the created_at of a row, whatever the clock reads; and when the clock readings of
  the calls never decrease and none is earlier than a created_at already stored, every
  row keeps \<open>created_at \<le> updated_at\<close> after the sequence.
\<close>

theorem created_at_fixed_and_stamps_ordered:
  assumes "wf_store s"
  shows "prefix (id_stamps s) (id_stamps (run cs s))
       \<and> (stamps_ok s \<and> sorted (clock cs) \<and> list_all (\<lambda>t. created_by t s) (clock cs)
            \<longrightarrow> stamps_ok (run cs s))"
  using id_stamps_run [OF assms] stamps_run [of s cs] by (simp add: list_all_iff)

theorem created_at_fixed_and_stamps_ordered_witness:
  "wf_store demo_store \<and> stamps_ok demo_store
   \<and> sorted (clock [Increment 50 1, Create 51 52 \<lparr>cc_name = ''c'', cc_value = 7\<rparr>, Decrement 53 2,
        Reset 53 3, GetOrCreateDefault 55 56, Get 1, Update 57 4 \<lparr>cu_value = Some 9\<rparr>])
   \<and> list_all (\<lambda>t. created_by t demo_store)
        (clock [Increment 50 1, Create 51 52 \<lparr>cc_name = ''c'', cc_value = 7\<rparr>, Decrement 53 2,
           Reset 53 3, GetOrCreateDefault 55 56, Get 1, Update 57 4 \<lparr>cu_value = Some 9\<rparr>])
   \<and> stamps_ok (run [Increment 50 1, Create 51 52 \<lparr>cc_name = ''c'', cc_value = 7\<rparr>, Decrement 53 2,
        Reset 53 3, GetOrCreateDefault 55 56, Get 1, Update 57 4 \<lparr>cu_value = Some 9\<rparr>] demo_store)
   \<and> prefix [(1, 10), (2, 30), (3, 40)]
        (id_stamps (run [Increment 50 1, Create 51 52 \<lparr>cc_name = ''c'', cc_value = 7\<rparr>,
           Decrement 53 2, Reset 53 3, GetOrCreateDefault 55 56, Get 1,
           Update 57 4 \<lparr>cu_value = Some 9\<rparr>] demo_store))"
proof -
  let ?cs = "[Increment 50 1, Create 51 52 \<lparr>cc_name = ''c'', cc_value = 7\<rparr>, Decrement 53 2,
        Reset 53 3, GetOrCreateDefault 55 56, Get 1, Update 57 4 \<lparr>cu_value = Some 9\<rparr>]"
  have h1: "wf_store demo_store"
    unfolding wf_store_def demo_store_def by simp
  have h2: "stamps_ok demo_store"
    unfolding stamps_ok_def demo_store_def by simp
  have h3: "sorted (clock ?cs)"
    unfolding clock_def by simp
  have h4: "list_all (\<lambda>t. created_by t demo_store) (clock ?cs)"
    unfolding clock_def created_by_def demo_store_def by simp
  have st: "id_stamps demo_store = [(1, 10), (2, 30), (3, 40)]"
    unfolding id_stamps_def demo_store_def by simp
  note r = created_at_fixed_and_stamps_ordered [OF h1, of ?cs]
  have a: "stamps_ok (run ?cs demo_store)"
    using r h2 h3 h4 by blast
  have b: "prefix [(1, 10), (2, 30), (3, 40)] (id_stamps (run ?cs demo_store))"
    using r unfolding st by blast
  show ?thesis
    using h1 h2 h3 h4 a b by blast
qed

end
